theory Spec2Isabelle
  imports Complex_Main "HOL-Library.Word"
begin

section \<open>CSV upload of the admin page: \<^verbatim>\<open>src/components/admin/CsvUpload.tsx\<close>\<close>

subsection \<open>JavaScript strings\<close>

text \<open>
  A JavaScript string is a sequence of UTF-16 code units. A string literal of the source
  is written \<open>lit ''...''\<close>: all literals of \<^verbatim>\<open>CsvUpload.tsx\<close> are ASCII, one code unit
  per character.
\<close>

type_synonym code_unit = "16 word"
type_synonym js_string = "code_unit list"

definition lit :: "string \<Rightarrow> js_string" where
  "lit s = map (\<lambda>c. of_nat (of_char c)) s"

definition LF :: code_unit where "LF = 0x0A"
definition CR :: code_unit where "CR = 0x0D"
definition comma :: code_unit where "comma = 0x2C"

text \<open>
  \<^verbatim>\<open>String.prototype.trim\<close> removes the code points of WhiteSpace and LineTerminator
  (ECMA-262, 12.2 and 12.3) from both ends: TAB, VT, FF, SP, NBSP, ZWNBSP, the
  Space_Separator category, and LF, CR, LS, PS. All of them are single code units.
\<close>

definition is_space :: "code_unit \<Rightarrow> bool" where
  "is_space c = (c \<in> set [0x09, 0x0A, 0x0B, 0x0C, 0x0D, 0x20, 0xA0, 0x1680,
                            0x2028, 0x2029, 0x202F, 0x205F, 0x3000, 0xFEFF]
                 \<or> (0x2000 \<le> c \<and> c \<le> 0x200A))"

definition trimStart :: "js_string \<Rightarrow> js_string" where
  "trimStart s = dropWhile is_space s"

definition trim :: "js_string \<Rightarrow> js_string" where
  "trim s = rev (dropWhile is_space (rev (dropWhile is_space s)))"

text \<open>
  \<^verbatim>\<open>s.split(sep)\<close> for a separator of one code unit, which is how the source calls it
  (\<^verbatim>\<open>'\n'\<close> and \<^verbatim>\<open>','\<close>): the pieces between the separators, never an empty array
  (\<^verbatim>\<open>''.split(',')\<close> is \<^verbatim>\<open>['']\<close>).
\<close>

fun js_split :: "code_unit \<Rightarrow> js_string \<Rightarrow> js_string list" where
  "js_split sep [] = [[]]"
| "js_split sep (c # s) =
     (if c = sep then [] # js_split sep s
      else (case js_split sep s of
              [] \<Rightarrow> [[c]]
            | piece # pieces \<Rightarrow> (c # piece) # pieces))"

text \<open>\<^verbatim>\<open>xs.join(sep)\<close> on an array of strings.\<close>

fun js_join :: "js_string \<Rightarrow> js_string list \<Rightarrow> js_string" where
  "js_join sep [] = []"
| "js_join sep [x] = x"
| "js_join sep (x # y # ys) = x @ sep @ js_join sep (y # ys)"

text \<open>\<^verbatim>\<open>xs.includes(x)\<close> on an array of strings: SameValueZero on strings is equality.\<close>

definition js_includes :: "js_string list \<Rightarrow> js_string \<Rightarrow> bool" where
  "js_includes xs x = (x \<in> set xs)"

text \<open>
  \<^verbatim>\<open>s.endsWith(t)\<close>: the last \<open>length t\<close> code units of \<open>s\<close> are \<open>t\<close>; false when \<open>s\<close>
  is shorter than \<open>t\<close>.
\<close>

definition endsWith :: "js_string \<Rightarrow> js_string \<Rightarrow> bool" where
  "endsWith s t = (length t \<le> length s \<and> drop (length s - length t) s = t)"

subsection \<open>Numbers and \<^verbatim>\<open>parseFloat\<close>\<close>

text \<open>
  The results of \<^verbatim>\<open>parseFloat\<close>: \<open>NaN\<close>, the two infinities, or a decimal literal with
  its sign (so that \<^verbatim>\<open>-0\<close> is told from \<^verbatim>\<open>0\<close>). \<open>Finite neg q\<close> carries the exact
  mathematical value \<open>q\<close> of the literal; the JavaScript Number is the IEEE 754 double
  nearest to it, which is \<open>q\<close> itself for every integer below \<open>2 ^ 53\<close>. The rounding is
  not part of this model.
\<close>

datatype js_number = NaN | Infinity bool | Finite bool rat

definition is_digit :: "code_unit \<Rightarrow> bool" where
  "is_digit c = (0x30 \<le> c \<and> c \<le> 0x39)"

definition decimal :: "js_string \<Rightarrow> nat" where
  "decimal ds = foldl (\<lambda>a c. 10 * a + (unat c - 48)) 0 ds"

definition scale10 :: "nat \<Rightarrow> int \<Rightarrow> rat" where
  "scale10 m e = (if 0 \<le> e then of_nat m * 10 ^ nat e else of_nat m / 10 ^ nat (- e))"

text \<open>
  ExponentPart (\<^verbatim>\<open>e\<close> or \<^verbatim>\<open>E\<close>, an optional sign, at least one digit) at the start of
  the string; \<open>0\<close> when there is none or when no digit follows, since the longest
  prefix that is a literal then ends before the \<^verbatim>\<open>e\<close>.
\<close>

definition exponent_part :: "js_string \<Rightarrow> int" where
  "exponent_part s =
     (case s of
        [] \<Rightarrow> 0
      | c # r \<Rightarrow>
          if c = 0x65 \<or> c = 0x45 then
            (case r of
               [] \<Rightarrow> 0
             | d # r' \<Rightarrow>
                 if d = 0x2D then - int (decimal (takeWhile is_digit r'))
                 else if d = 0x2B then int (decimal (takeWhile is_digit r'))
                 else int (decimal (takeWhile is_digit r)))
          else 0)"

text \<open>
  StrUnsignedDecimalLiteral: \<^verbatim>\<open>Infinity\<close>, or digits with an optional fraction and
  exponent, or a fraction that starts with the dot. No digit at all gives \<open>NaN\<close>.
\<close>

definition unsigned_literal :: "bool \<Rightarrow> js_string \<Rightarrow> js_number" where
  "unsigned_literal neg s =
     (if take 8 s = lit ''Infinity'' then Infinity neg
      else
        let ip = takeWhile is_digit s;
            r1 = dropWhile is_digit s;
            dot = (r1 \<noteq> [] \<and> hd r1 = 0x2E);
            fp = (if dot then takeWhile is_digit (tl r1) else []);
            r2 = (if dot then dropWhile is_digit (tl r1) else r1)
        in if ip = [] \<and> fp = [] then NaN
           else Finite neg (scale10 (decimal (ip @ fp)) (exponent_part r2 - int (length fp))))"

text \<open>
  \<^verbatim>\<open>parseFloat(s)\<close>: leading white space is skipped, then the longest prefix that is a
  StrDecimalLiteral gives the value, whatever follows it.
\<close>

definition parseFloat :: "js_string \<Rightarrow> js_number" where
  "parseFloat s =
     (case trimStart s of
        [] \<Rightarrow> NaN
      | c # r \<Rightarrow>
          if c = 0x2D then unsigned_literal True r
          else if c = 0x2B then unsigned_literal False r
          else unsigned_literal False (c # r))"

subsection \<open>Product records\<close>

text \<open>
  A value stored in a product: \<^verbatim>\<open>values[index]\<close> is a string or, beyond the end of the
  array, \<^verbatim>\<open>undefined\<close>; \<^verbatim>\<open>parseFloat\<close> gives a number. The product object is the map from
  its own property names to their values.
\<close>

datatype js_value = Undefined | Str js_string | Num js_number

type_synonym product = "js_string \<rightharpoonup> js_value"

definition new_product :: product where
  "new_product =
     [lit ''id'' \<mapsto> Str [], lit ''name'' \<mapsto> Str [], lit ''description'' \<mapsto> Str [],
      lit ''basePrice'' \<mapsto> Num (Finite False 0), lit ''stock'' \<mapsto> Num (Finite False 0),
      lit ''image'' \<mapsto> Str [], lit ''category'' \<mapsto> Str []]"

text \<open>\<^verbatim>\<open>values[index]\<close>: \<open>None\<close> is \<^verbatim>\<open>undefined\<close>.\<close>

definition value_at :: "js_string list \<Rightarrow> nat \<Rightarrow> js_string option" where
  "value_at vals index = (if index < length vals then Some (vals ! index) else None)"

text \<open>\<^verbatim>\<open>parseFloat(values[index])\<close>: the argument is converted to a string first.\<close>

definition parseFloat_arg :: "js_string option \<Rightarrow> js_number" where
  "parseFloat_arg v = parseFloat (case v of None \<Rightarrow> lit ''undefined'' | Some s \<Rightarrow> s)"

definition stored :: "js_string option \<Rightarrow> js_value" where
  "stored v = (case v of None \<Rightarrow> Undefined | Some s \<Rightarrow> Str s)"

text \<open>
  \<^verbatim>\<open>(product as any)[header] = v\<close> on a plain object whose value is a string, a number
  or \<^verbatim>\<open>undefined\<close>: it makes or overwrites the own property \<open>header\<close>, except for
  \<^verbatim>\<open>__proto__\<close>, the one accessor of \<^verbatim>\<open>Object.prototype\<close>, whose setter ignores a value
  that is neither an object nor \<^verbatim>\<open>null\<close>.
\<close>

definition assign :: "product \<Rightarrow> js_string \<Rightarrow> js_value \<Rightarrow> product" where
  "assign p header v = (if header = lit ''__proto__'' then p else p(header \<mapsto> v))"

text \<open>The body of \<^verbatim>\<open>headers.forEach((header, index) => ...)\<close>, lines 73 to 79.\<close>

definition field_value :: "js_string \<Rightarrow> js_string option \<Rightarrow> js_value" where
  "field_value header v =
     (if header = lit ''basePrice'' \<or> header = lit ''stock'' then Num (parseFloat_arg v)
      else stored v)"

fun forEach_header :: "js_string list \<Rightarrow> nat \<Rightarrow> js_string list \<Rightarrow> product \<Rightarrow> product" where
  "forEach_header [] index vals p = p"
| "forEach_header (header # rest) index vals p =
     forEach_header rest (Suc index) vals
       (assign p header (field_value header (value_at vals index)))"

text \<open>The function mapped over \<^verbatim>\<open>rows.slice(1)\<close>, lines 61 to 82.\<close>

definition parse_row :: "js_string list \<Rightarrow> js_string \<Rightarrow> product" where
  "parse_row headers row = forEach_header headers 0 (js_split comma row) new_product"

subsection \<open>Ingestion: lines 49 to 82 of \<^verbatim>\<open>handleUpload\<close>\<close>

text \<open>
  What the \<^verbatim>\<open>try\<close> block can throw: the \<^verbatim>\<open>Error\<close> of line 57 with its message, the
  \<^verbatim>\<open>TypeError\<close> of \<^verbatim>\<open>rows[0].split\<close> when \<^verbatim>\<open>rows\<close> is empty (its message is the engine's),
  a rejection of \<^verbatim>\<open>file.text()\<close> or an exception of \<^verbatim>\<open>uploadProducts\<close> (\<open>Thrown\<close>, with
  the message when the value is an \<^verbatim>\<open>Error\<close>).
\<close>

datatype js_error = Error js_string | TypeError | Thrown "js_string option"

definition requiredColumns :: "js_string list" where
  "requiredColumns = [lit ''id'', lit ''name'', lit ''description'', lit ''basePrice'',
                      lit ''stock'', lit ''image'', lit ''category'']"

definition rows_of :: "js_string \<Rightarrow> js_string list" where
  "rows_of text = filter (\<lambda>row. trim row \<noteq> []) (js_split LF text)"

definition missingColumns :: "js_string list \<Rightarrow> js_string list" where
  "missingColumns headers = filter (\<lambda>col. \<not> js_includes headers col) requiredColumns"

definition ingest :: "js_string \<Rightarrow> js_error + product list" where
  "ingest text =
     (case rows_of text of
        [] \<Rightarrow> Inl TypeError
      | row0 # data \<Rightarrow>
          let headers = js_split comma row0 in
          if length (missingColumns headers) > 0
          then Inl (Error (lit ''Missing required columns: '' @
                           js_join (lit '', '') (missingColumns headers)))
          else Inr (map (parse_row headers) data))"

subsection \<open>The upload: \<^verbatim>\<open>handleUpload\<close>, lines 23 to 100\<close>

text \<open>
  The selected file: its name and what \<^verbatim>\<open>await file.text()\<close> gives, the decoded content
  or a rejection.
\<close>

record js_file =
  file_name :: js_string
  file_text :: "js_error + js_string"

datatype upload_status = StatusSuccess js_string | StatusError js_string

text \<open>
  What \<^verbatim>\<open>handleUpload\<close> does to the world, in the order it does it: the state setters
  of the component, the simulated delay (milliseconds), the read of the file, the call
  of the store's \<^verbatim>\<open>uploadProducts\<close> with its argument, and the trace on the console.
\<close>

datatype event =
    SetUploadStatus "upload_status option"
  | SetUploading bool
  | Delay nat
  | ReadText
  | UploadProducts "product list"
  | ConsoleError js_error

text \<open>\<^verbatim>\<open>${products.length}\<close>: a length in decimal digits.\<close>

fun show_nat :: "nat \<Rightarrow> js_string" where
  "show_nat n =
     (if n < 10 then [of_nat (48 + n)]
      else show_nat (n div 10) @ [of_nat (48 + n mod 10)])"

declare show_nat.simps [simp del]

text \<open>
  \<^verbatim>\<open>error instanceof Error ? error.message : "An error occurred ..."\<close>. The message of
  the \<^verbatim>\<open>TypeError\<close> is the engine's; the wording here is V8's.
\<close>

definition error_message :: "js_error \<Rightarrow> js_string" where
  "error_message e =
     (case e of
        Error m \<Rightarrow> m
      | TypeError \<Rightarrow> lit ''Cannot read properties of undefined (reading 'split')''
      | Thrown (Some m) \<Rightarrow> m
      | Thrown None \<Rightarrow> lit ''An error occurred while processing the CSV file.'')"

definition catch :: "js_error \<Rightarrow> event list" where
  "catch e = [ConsoleError e, SetUploadStatus (Some (StatusError (error_message e)))]"

text \<open>
  The \<^verbatim>\<open>try\<close> block. The store is outside this file: \<open>uploadProducts\<close> tells whether
  its call returns (\<open>None\<close>) or throws.
\<close>

definition try_block :: "(product list \<Rightarrow> js_error option) \<Rightarrow> js_file \<Rightarrow> event list" where
  "try_block uploadProducts file =
     [Delay 1500, ReadText] @
     (case file_text file of
        Inl e \<Rightarrow> catch e
      | Inr text \<Rightarrow>
          (case ingest text of
             Inl e \<Rightarrow> catch e
           | Inr products \<Rightarrow>
               UploadProducts products #
               (case uploadProducts products of
                  Some e \<Rightarrow> catch e
                | None \<Rightarrow>
                    [SetUploadStatus (Some (StatusSuccess
                       (lit ''Successfully processed '' @ show_nat (length products) @
                        lit '' products.'')))])))"

definition handleUpload ::
    "(product list \<Rightarrow> js_error option) \<Rightarrow> js_file option \<Rightarrow> event list" where
  "handleUpload uploadProducts file =
     (case file of
        None \<Rightarrow> [SetUploadStatus (Some (StatusError (lit ''Please select a CSV file.'')))]
      | Some f \<Rightarrow>
          if \<not> endsWith (file_name f) (lit ''.csv'')
          then [SetUploadStatus (Some (StatusError (lit ''Please upload a valid CSV file.'')))]
          else [SetUploading True, SetUploadStatus None] @ try_block uploadProducts f @
               [SetUploading False])"

text \<open>The arguments of the calls of \<^verbatim>\<open>uploadProducts\<close> in a trace, in order.\<close>

fun store_calls :: "event list \<Rightarrow> product list list" where
  "store_calls [] = []"
| "store_calls (UploadProducts products # es) = products # store_calls es"
| "store_calls (e # es) = store_calls es"

subsection \<open>Notions used in the statements\<close>

text \<open>
  A text is numeric for \<^verbatim>\<open>parseFloat\<close> when, after leading white space and an optional
  sign, it starts with \<^verbatim>\<open>Infinity\<close>, with a digit, or with a dot and a digit: these are
  the texts that have a prefix which is a StrDecimalLiteral.
\<close>

definition numeric_prefix :: "js_string \<Rightarrow> bool" where
  "numeric_prefix s =
     (let t = trimStart s;
          u = (if t \<noteq> [] \<and> (hd t = 0x2B \<or> hd t = 0x2D) then tl t else t)
      in take 8 u = lit ''Infinity''
         \<or> (u \<noteq> [] \<and> is_digit (hd u))
         \<or> (u \<noteq> [] \<and> hd u = 0x2E \<and> tl u \<noteq> [] \<and> is_digit (hd (tl u))))"

text \<open>A text in which every line ends with the two code units CR and LF.\<close>

definition crlf_text :: "js_string list \<Rightarrow> js_string" where
  "crlf_text ls = concat (map (\<lambda>l. l @ [CR, LF]) ls)"

section \<open>Properties\<close>

subsection \<open>Evaluation and basic facts\<close>

lemmas csv_eval =
  lit_def LF_def CR_def comma_def trim_def trimStart_def is_space_def rows_of_def
  missingColumns_def js_includes_def requiredColumns_def

lemmas number_eval =
  parseFloat_def parseFloat_arg_def unsigned_literal_def exponent_part_def is_digit_def
  decimal_def scale10_def Let_def

lemmas row_eval =
  parse_row_def new_product_def assign_def field_value_def value_at_def stored_def

lemma js_split_not_Nil: "js_split sep s \<noteq> []"
  by (induction s) (auto split: list.splits)

lemma missingColumns_Nil_iff:
  "missingColumns headers = [] \<longleftrightarrow> set requiredColumns \<subseteq> set headers"
  by (auto simp: missingColumns_def js_includes_def filter_empty_conv)

lemma missingColumns_filter:
  "missingColumns headers = filter (\<lambda>col. col \<notin> set headers) requiredColumns"
  by (simp add: missingColumns_def js_includes_def)

lemma ingest_valid_header:
  assumes "rows_of text = row0 # data"
      and "set requiredColumns \<subseteq> set (js_split comma row0)"
    shows "ingest text = Inr (map (parse_row (js_split comma row0)) data)"
  using assms by (simp add: ingest_def missingColumns_Nil_iff)

lemma ingest_invalid_header:
  assumes "rows_of text = row0 # data"
      and "\<not> set requiredColumns \<subseteq> set (js_split comma row0)"
    shows "ingest text = Inl (Error (lit ''Missing required columns: '' @
             js_join (lit '', '') (missingColumns (js_split comma row0))))"
  using assms by (simp add: ingest_def missingColumns_Nil_iff)

lemma forEach_header_other:
  "k \<notin> set hs \<Longrightarrow> forEach_header hs n vals p k = p k"
  by (induction hs arbitrary: n p) (auto simp: assign_def)

lemma forEach_header_last:
  assumes "i < length hs" and "hs ! i = k" and "k \<notin> set (drop (Suc i) hs)"
      and "k \<noteq> lit ''__proto__''"
    shows "forEach_header hs n vals p k = Some (field_value k (value_at vals (n + i)))"
  using assms
proof (induction hs arbitrary: n p i)
  case Nil
  then show ?case by simp
next
  case (Cons h hs)
  show ?case
  proof (cases i)
    case 0
    with Cons.prems have "k = h" and "k \<notin> set hs" by simp_all
    with Cons.prems(4) 0 show ?thesis
      by (simp add: forEach_header_other assign_def)
  next
    case (Suc i')
    with Cons.prems have "i' < length hs" "hs ! i' = k" "k \<notin> set (drop (Suc i') hs)"
      by simp_all
    from Cons.IH [OF this Cons.prems(4)] Suc show ?thesis by simp
  qed
qed

lemma forEach_header_cong:
  assumes "\<And>i. n \<le> i \<Longrightarrow> i < n + length hs \<Longrightarrow> value_at vals i = value_at vals' i"
    shows "forEach_header hs n vals p = forEach_header hs n vals' p"
  using assms
proof (induction hs arbitrary: n p)
  case Nil
  show ?case by simp
next
  case (Cons h hs)
  have here: "value_at vals n = value_at vals' n"
    by (rule Cons.prems) simp_all
  have "forEach_header hs (Suc n) vals (assign p h (field_value h (value_at vals n))) =
        forEach_header hs (Suc n) vals' (assign p h (field_value h (value_at vals n)))"
    by (rule Cons.IH) (simp add: Cons.prems)
  with here show ?case by simp
qed

lemma forEach_header_take:
  "forEach_header hs 0 vals p = forEach_header hs 0 (take (length hs) vals) p"
  by (rule forEach_header_cong) (simp add: value_at_def)

subsection \<open>Header validation\<close>

text \<open>
  Claim C1. When the header row (the first row that is not blank) lacks one or more of
  the seven required names, \<open>ingest\<close> fails with the \<^verbatim>\<open>Error\<close> of line 57, the spec's
  ValidationError. Its message is \<^verbatim>\<open>Missing required columns: \<close> followed by exactly the
  required names that are not in the header, in the order of \<open>requiredColumns\<close>, joined
  by a comma and a space.
\<close>

theorem missing_columns_reported:
  assumes "rows_of text = row0 # data"
      and "\<not> set requiredColumns \<subseteq> set (js_split comma row0)"
    shows "ingest text =
             Inl (Error (lit ''Missing required columns: '' @
                         js_join (lit '', '')
                           (filter (\<lambda>col. col \<notin> set (js_split comma row0)) requiredColumns)))
           \<and> filter (\<lambda>col. col \<notin> set (js_split comma row0)) requiredColumns \<noteq> []"
proof
  show "ingest text =
          Inl (Error (lit ''Missing required columns: '' @
                      js_join (lit '', '')
                        (filter (\<lambda>col. col \<notin> set (js_split comma row0)) requiredColumns)))"
    using ingest_invalid_header [OF assms] by (simp add: missingColumns_filter)
  show "filter (\<lambda>col. col \<notin> set (js_split comma row0)) requiredColumns \<noteq> []"
    using assms(2) by (auto simp: filter_empty_conv)
qed

theorem missing_columns_reported_witness:
  "rows_of (lit ''id,name,price\<newline>7,Desk,80'') = [lit ''id,name,price'', lit ''7,Desk,80'']
   \<and> \<not> set requiredColumns \<subseteq> set (js_split comma (lit ''id,name,price''))
   \<and> ingest (lit ''id,name,price\<newline>7,Desk,80'') =
       Inl (Error (lit ''Missing required columns: description, basePrice, stock, image, category''))"
proof -
  have rows: "rows_of (lit ''id,name,price\<newline>7,Desk,80'') =
                lit ''id,name,price'' # [lit ''7,Desk,80'']"
    by (simp add: csv_eval)
  have bad: "\<not> set requiredColumns \<subseteq> set (js_split comma (lit ''id,name,price''))"
    by (simp add: csv_eval)
  have missing: "lit ''Missing required columns: '' @
                 js_join (lit '', '')
                   (filter (\<lambda>col. col \<notin> set (js_split comma (lit ''id,name,price'')))
                      requiredColumns) =
                 lit ''Missing required columns: description, basePrice, stock, image, category''"
    by (simp add: csv_eval)
  show ?thesis
    using missing_columns_reported [OF rows bad] rows bad unfolding missing by simp
qed

text \<open>
  Claim C6. When the header row holds all seven required names, each as an exact
  (case-sensitive) match, in any order and next to any other columns, validation passes:
  \<open>ingest\<close> raises no error and returns one record for each data row.
\<close>

theorem complete_header_accepted:
  assumes "rows_of text = row0 # data"
      and "set requiredColumns \<subseteq> set (js_split comma row0)"
    shows "\<exists>products. ingest text = Inr products \<and> length products = length data"
  using ingest_valid_header [OF assms] by simp

theorem complete_header_accepted_witness:
  "rows_of (lit ''sku,stock,category,image,basePrice,description,name,id,Name\<newline>9,4,c,i,5,d,n,1,N'') =
     [lit ''sku,stock,category,image,basePrice,description,name,id,Name'', lit ''9,4,c,i,5,d,n,1,N'']
   \<and> set requiredColumns \<subseteq>
       set (js_split comma (lit ''sku,stock,category,image,basePrice,description,name,id,Name''))
   \<and> (\<exists>products.
         ingest (lit ''sku,stock,category,image,basePrice,description,name,id,Name\<newline>9,4,c,i,5,d,n,1,N'') =
           Inr products
         \<and> length products = 1)"
proof -
  have rows: "rows_of (lit ''sku,stock,category,image,basePrice,description,name,id,Name\<newline>9,4,c,i,5,d,n,1,N'') =
     lit ''sku,stock,category,image,basePrice,description,name,id,Name'' # [lit ''9,4,c,i,5,d,n,1,N'']"
    by (simp add: csv_eval)
  have good: "set requiredColumns \<subseteq>
       set (js_split comma (lit ''sku,stock,category,image,basePrice,description,name,id,Name''))"
    by (simp add: csv_eval)
  show ?thesis
    using complete_header_accepted [OF rows good] rows good by simp
qed

subsection \<open>Empty input and the sample row\<close>

text \<open>
  Claim C2. Empty input: no row of the text survives the filter, \<^verbatim>\<open>rows[0]\<close> is
  \<^verbatim>\<open>undefined\<close> and \<^verbatim>\<open>rows[0].split(',')\<close> throws a \<^verbatim>\<open>TypeError\<close>, where the claim
  says that the empty record sequence is returned without error. The same holds for a
  text of blank lines only. A complete header row alone does give the empty sequence.
\<close>

theorem empty_input_throws:
  "ingest [] = Inl TypeError
   \<and> ingest (lit ''\<newline>  \<newline>'') = Inl TypeError
   \<and> ingest (lit ''id,name,description,basePrice,stock,image,category'') = Inr []"
  by (simp add: ingest_def csv_eval)

text \<open>
  Claim C3. The header \<^verbatim>\<open>id,name,description,basePrice,stock,image,category\<close> followed
  by the one data row of the format example gives exactly one record: \<open>basePrice\<close> is
  the number 1200, \<open>stock\<close> the number 10, the five other fields are the strings of the
  row, and the record has no other property.
\<close>

theorem sample_row_parsed:
  "ingest (lit ''id,name,description,basePrice,stock,image,category\<newline>1,Laptop Pro,High-performance laptop,1200,10,https://example.com/laptop.jpg,Electronics'') =
     Inr [[lit ''id'' \<mapsto> Str (lit ''1''),
           lit ''name'' \<mapsto> Str (lit ''Laptop Pro''),
           lit ''description'' \<mapsto> Str (lit ''High-performance laptop''),
           lit ''basePrice'' \<mapsto> Num (Finite False 1200),
           lit ''stock'' \<mapsto> Num (Finite False 10),
           lit ''image'' \<mapsto> Str (lit ''https://example.com/laptop.jpg''),
           lit ''category'' \<mapsto> Str (lit ''Electronics'')]]"
proof -
  let ?row = "lit ''1,Laptop Pro,High-performance laptop,1200,10,https://example.com/laptop.jpg,Electronics''"
  let ?p = "parse_row requiredColumns ?row"
  have rows: "rows_of (lit ''id,name,description,basePrice,stock,image,category\<newline>1,Laptop Pro,High-performance laptop,1200,10,https://example.com/laptop.jpg,Electronics'') =
     [lit ''id,name,description,basePrice,stock,image,category'', ?row]"
    by (simp add: csv_eval)
  have hs: "js_split comma (lit ''id,name,description,basePrice,stock,image,category'') =
              requiredColumns"
    by (simp add: csv_eval)
  have vs: "js_split comma ?row =
     [lit ''1'', lit ''Laptop Pro'', lit ''High-performance laptop'', lit ''1200'', lit ''10'',
      lit ''https://example.com/laptop.jpg'', lit ''Electronics'']"
    by (simp add: csv_eval)
  have f1: "?p (lit ''id'') = Some (Str (lit ''1''))"
    unfolding parse_row_def vs by (simp add: row_eval csv_eval)
  have f2: "?p (lit ''name'') = Some (Str (lit ''Laptop Pro''))"
    unfolding parse_row_def vs by (simp add: row_eval csv_eval)
  have f3: "?p (lit ''description'') = Some (Str (lit ''High-performance laptop''))"
    unfolding parse_row_def vs by (simp add: row_eval csv_eval)
  have f4: "?p (lit ''basePrice'') = Some (Num (Finite False 1200))"
    unfolding parse_row_def vs
    by (simp add: row_eval csv_eval number_eval)
  have f5: "?p (lit ''stock'') = Some (Num (Finite False 10))"
    unfolding parse_row_def vs
    by (simp add: row_eval csv_eval number_eval)
  have f6: "?p (lit ''image'') = Some (Str (lit ''https://example.com/laptop.jpg''))"
    unfolding parse_row_def vs by (simp add: row_eval csv_eval)
  have f7: "?p (lit ''category'') = Some (Str (lit ''Electronics''))"
    unfolding parse_row_def vs by (simp add: row_eval csv_eval)
  have other: "?p k = None" if "k \<notin> set requiredColumns" for k
  proof -
    have "?p k = new_product k"
      unfolding parse_row_def using that by (rule forEach_header_other)
    also have "\<dots> = None"
      using that by (simp add: new_product_def requiredColumns_def)
    finally show ?thesis .
  qed
  have "?p = [lit ''id'' \<mapsto> Str (lit ''1''),
           lit ''name'' \<mapsto> Str (lit ''Laptop Pro''),
           lit ''description'' \<mapsto> Str (lit ''High-performance laptop''),
           lit ''basePrice'' \<mapsto> Num (Finite False 1200),
           lit ''stock'' \<mapsto> Num (Finite False 10),
           lit ''image'' \<mapsto> Str (lit ''https://example.com/laptop.jpg''),
           lit ''category'' \<mapsto> Str (lit ''Electronics'')]" (is "_ = ?q")
  proof (rule ext)
    fix k
    show "?p k = ?q k"
    proof (cases "k \<in> set requiredColumns")
      case True
      then consider "k = lit ''id''" | "k = lit ''name''" | "k = lit ''description''"
        | "k = lit ''basePrice''" | "k = lit ''stock''" | "k = lit ''image''"
        | "k = lit ''category''"
        by (auto simp: requiredColumns_def)
      then show ?thesis
      proof cases
        case 1 then show ?thesis by (simp only: f1) (simp add: lit_def)
      next
        case 2 then show ?thesis by (simp only: f2) (simp add: lit_def)
      next
        case 3 then show ?thesis by (simp only: f3) (simp add: lit_def)
      next
        case 4 then show ?thesis by (simp only: f4) (simp add: lit_def)
      next
        case 5 then show ?thesis by (simp only: f5) (simp add: lit_def)
      next
        case 6 then show ?thesis by (simp only: f6) (simp add: lit_def)
      next
        case 7 then show ?thesis by (simp only: f7) (simp add: lit_def)
      qed
    next
      case False
      then have "?q k = None" by (simp add: requiredColumns_def)
      with other [OF False] show ?thesis by simp
    qed
  qed
  moreover have "ingest (lit ''id,name,description,basePrice,stock,image,category\<newline>1,Laptop Pro,High-performance laptop,1200,10,https://example.com/laptop.jpg,Electronics'') = Inr [?p]"
    using ingest_valid_header [OF rows] by (simp add: hs)
  ultimately show ?thesis by simp
qed

subsection \<open>The upload and the store\<close>

lemma store_calls_append:
  "store_calls (es @ es') = store_calls es @ store_calls es'"
  by (induction es rule: store_calls.induct) simp_all

lemma store_calls_catch: "store_calls (catch e) = []"
  by (simp add: catch_def)

lemma store_calls_handleUpload:
  "store_calls (handleUpload uploadProducts file) =
     (case file of
        None \<Rightarrow> []
      | Some f \<Rightarrow>
          if endsWith (file_name f) (lit ''.csv'') then
            (case file_text f of
               Inl e \<Rightarrow> []
             | Inr text \<Rightarrow> (case ingest text of Inl e \<Rightarrow> [] | Inr products \<Rightarrow> [products]))
          else [])"
  by (simp add: handleUpload_def try_block_def store_calls_append store_calls_catch
           split: option.splits sum.splits)

lemma success_status_handleUpload:
  assumes "SetUploadStatus (Some (StatusSuccess msg))
             \<in> set (handleUpload uploadProducts (Some f))"
    shows "\<exists>contents products. file_text f = Inr contents \<and> ingest contents = Inr products"
proof (cases "file_text f")
  case (Inl e)
  with assms show ?thesis
    by (simp add: handleUpload_def try_block_def catch_def split: if_splits)
next
  case (Inr contents)
  show ?thesis
  proof (cases "ingest contents")
    case (Inl e)
    with assms Inr show ?thesis
      by (simp add: handleUpload_def try_block_def catch_def split: if_splits)
  next
    case ok: (Inr products)
    with Inr show ?thesis by simp
  qed
qed

text \<open>
  Claim C4. In every run of \<open>handleUpload\<close> the store's \<^verbatim>\<open>uploadProducts\<close> is called at
  most once. When no file is selected, the file cannot be read or \<open>ingest\<close> fails, it
  is not called at all. Whatever it is called with is the whole record sequence that
  \<open>ingest\<close> returned, and a run that reports success has made exactly that one call.
\<close>

theorem store_called_at_most_once:
  "store_calls (handleUpload uploadProducts None) = []
   \<and> length (store_calls (handleUpload uploadProducts (Some f))) \<le> 1
   \<and> (\<forall>e. file_text f = Inl e \<longrightarrow> store_calls (handleUpload uploadProducts (Some f)) = [])
   \<and> (\<forall>contents e. file_text f = Inr contents \<and> ingest contents = Inl e \<longrightarrow>
          store_calls (handleUpload uploadProducts (Some f)) = [])
   \<and> (\<forall>products \<in> set (store_calls (handleUpload uploadProducts (Some f))).
          \<exists>contents. file_text f = Inr contents \<and> ingest contents = Inr products)
   \<and> (\<forall>msg. SetUploadStatus (Some (StatusSuccess msg))
               \<in> set (handleUpload uploadProducts (Some f)) \<longrightarrow>
          (\<exists>contents products. file_text f = Inr contents \<and> ingest contents = Inr products
             \<and> store_calls (handleUpload uploadProducts (Some f)) = [products]))"
proof (intro conjI allI impI ballI)
  show "store_calls (handleUpload uploadProducts None) = []"
    by (simp add: store_calls_handleUpload)
next
  show "length (store_calls (handleUpload uploadProducts (Some f))) \<le> 1"
    by (simp add: store_calls_handleUpload split: sum.splits)
next
  fix e
  assume "file_text f = Inl e"
  then show "store_calls (handleUpload uploadProducts (Some f)) = []"
    by (simp add: store_calls_handleUpload)
next
  fix contents e
  assume "file_text f = Inr contents \<and> ingest contents = Inl e"
  then show "store_calls (handleUpload uploadProducts (Some f)) = []"
    by (simp add: store_calls_handleUpload)
next
  fix products
  assume handed: "products \<in> set (store_calls (handleUpload uploadProducts (Some f)))"
  then show "\<exists>contents. file_text f = Inr contents \<and> ingest contents = Inr products"
  proof (cases "endsWith (file_name f) (lit ''.csv'')")
    case False
    with handed show ?thesis by (simp add: store_calls_handleUpload)
  next
    case True
    show ?thesis
    proof (cases "file_text f")
      case (Inl e)
      with handed True show ?thesis by (simp add: store_calls_handleUpload)
    next
      case (Inr contents)
      with handed True show ?thesis
        by (cases "ingest contents") (simp_all add: store_calls_handleUpload)
    qed
  qed
next
  fix msg
  assume status: "SetUploadStatus (Some (StatusSuccess msg))
                    \<in> set (handleUpload uploadProducts (Some f))"
  then have csv: "endsWith (file_name f) (lit ''.csv'')"
    by (auto simp: handleUpload_def split: if_splits)
  from success_status_handleUpload [OF status]
  obtain contents products where
    "file_text f = Inr contents" "ingest contents = Inr products"
    by blast
  with csv show "\<exists>contents products. file_text f = Inr contents
               \<and> ingest contents = Inr products
               \<and> store_calls (handleUpload uploadProducts (Some f)) = [products]"
    by (simp add: store_calls_handleUpload)
qed

theorem store_called_at_most_once_witness:
  "ingest (lit ''id,name'') =
     Inl (Error (lit ''Missing required columns: description, basePrice, stock, image, category''))
   \<and> store_calls (handleUpload (\<lambda>products. None)
        (Some \<lparr>file_name = lit ''stock.csv'', file_text = Inr (lit ''id,name'')\<rparr>)) = []
   \<and> SetUploadStatus (Some (StatusSuccess (lit ''Successfully processed 0 products.'')))
        \<in> set (handleUpload (\<lambda>products. None)
             (Some \<lparr>file_name = lit ''stock.csv'',
                    file_text = Inr (lit ''id,name,description,basePrice,stock,image,category'')\<rparr>))
   \<and> store_calls (handleUpload (\<lambda>products. None)
        (Some \<lparr>file_name = lit ''stock.csv'',
               file_text = Inr (lit ''id,name,description,basePrice,stock,image,category'')\<rparr>)) = [[]]"
proof -
  let ?bad = "\<lparr>file_name = lit ''stock.csv'', file_text = Inr (lit ''id,name'')\<rparr>"
  let ?good = "\<lparr>file_name = lit ''stock.csv'',
                 file_text = Inr (lit ''id,name,description,basePrice,stock,image,category'')\<rparr>"
  have fails: "ingest (lit ''id,name'') =
     Inl (Error (lit ''Missing required columns: description, basePrice, stock, image, category''))"
    by (simp add: ingest_def csv_eval)
  have works: "ingest (lit ''id,name,description,basePrice,stock,image,category'') = Inr []"
    by (simp add: ingest_def csv_eval)
  have csv: "endsWith (lit ''stock.csv'') (lit ''.csv'')"
    by (simp add: endsWith_def lit_def)
  have digit: "show_nat 0 = lit ''0''"
    by (simp add: show_nat.simps lit_def)
  have reported: "SetUploadStatus (Some (StatusSuccess (lit ''Successfully processed 0 products.'')))
        \<in> set (handleUpload (\<lambda>products. None) (Some ?good))"
    by (simp add: handleUpload_def try_block_def works csv digit) (simp add: lit_def)
  have none: "store_calls (handleUpload (\<lambda>products. None) (Some ?bad)) = []"
    using store_called_at_most_once [of "\<lambda>products. None" ?bad] fails by simp
  have one: "store_calls (handleUpload (\<lambda>products. None) (Some ?good)) = [[]]"
    using store_called_at_most_once [of "\<lambda>products. None" ?good] reported works
    by auto
  show ?thesis using fails none reported one by simp
qed

text \<open>
  Claim C5. When no file is selected, or the name of the selected file does not end in
  \<^verbatim>\<open>.csv\<close>, the only thing \<open>handleUpload\<close> does is to set an error status with its
  message: there is no delay, no read of the file, no parsing and no call of the store,
  whatever the file holds.
\<close>

theorem rejected_before_any_work:
  assumes "file = None \<or> (\<exists>f. file = Some f \<and> \<not> endsWith (file_name f) (lit ''.csv''))"
    shows "handleUpload uploadProducts file =
             [SetUploadStatus (Some (StatusError
                (if file = None then lit ''Please select a CSV file.''
                 else lit ''Please upload a valid CSV file.'')))]"
  using assms by (auto simp: handleUpload_def)

theorem rejected_before_any_work_witness:
  "\<not> endsWith (lit ''products.csv.txt'') (lit ''.csv'')
   \<and> handleUpload (\<lambda>products. None)
        (Some \<lparr>file_name = lit ''products.csv.txt'',
               file_text = Inr (lit ''id,name,description,basePrice,stock,image,category'')\<rparr>) =
       [SetUploadStatus (Some (StatusError (lit ''Please upload a valid CSV file.'')))]
   \<and> handleUpload (\<lambda>products. None) None =
       [SetUploadStatus (Some (StatusError (lit ''Please select a CSV file.'')))]"
proof -
  let ?f = "\<lparr>file_name = lit ''products.csv.txt'',
              file_text = Inr (lit ''id,name,description,basePrice,stock,image,category'')\<rparr>"
  have name: "\<not> endsWith (lit ''products.csv.txt'') (lit ''.csv'')"
    by (simp add: endsWith_def lit_def)
  then have "Some ?f = None \<or> (\<exists>f. Some ?f = Some f \<and> \<not> endsWith (file_name f) (lit ''.csv''))"
    by simp
  from rejected_before_any_work [OF this, of "\<lambda>products. None"]
  have a: "handleUpload (\<lambda>products. None) (Some ?f) =
       [SetUploadStatus (Some (StatusError (lit ''Please upload a valid CSV file.'')))]"
    by simp
  have b: "handleUpload (\<lambda>products. None) None =
       [SetUploadStatus (Some (StatusError (lit ''Please select a CSV file.'')))]"
    using rejected_before_any_work [of None "\<lambda>products. None"] by simp
  show ?thesis using name a b by simp
qed

subsection \<open>Rows and their records\<close>

lemma trim_Nil_iff: "trim s = [] \<longleftrightarrow> (\<forall>c \<in> set s. is_space c)"
proof -
  have "trim s = [] \<longleftrightarrow> (\<forall>c \<in> set (dropWhile is_space s). is_space c)"
    by (simp add: trim_def dropWhile_eq_Nil_conv)
  also have "\<dots> \<longleftrightarrow> dropWhile is_space s = []"
  proof
    assume all: "\<forall>c \<in> set (dropWhile is_space s). is_space c"
    show "dropWhile is_space s = []"
    proof (rule ccontr)
      assume ne: "dropWhile is_space s \<noteq> []"
      then have "\<not> is_space (hd (dropWhile is_space s))" by (rule hd_dropWhile)
      moreover from ne have "hd (dropWhile is_space s) \<in> set (dropWhile is_space s)" by simp
      ultimately show False using all by blast
    qed
  qed (auto simp: dropWhile_eq_Nil_conv dest: set_dropWhileD)
  also have "\<dots> \<longleftrightarrow> (\<forall>c \<in> set s. is_space c)"
    by (simp add: dropWhile_eq_Nil_conv)
  finally show ?thesis .
qed

lemma rows_of_nonblank:
  "rows_of text = filter (\<lambda>row. \<exists>c \<in> set row. \<not> is_space c) (js_split LF text)"
  unfolding rows_of_def by (rule filter_cong) (auto simp: trim_Nil_iff)

lemma not_space_comma: "\<not> is_space comma"
  by (simp add: is_space_def comma_def)

lemma ingest_Inr_rows:
  assumes "ingest text = Inr products"
    shows "\<exists>row0 data. rows_of text = row0 # data
             \<and> products = map (parse_row (js_split comma row0)) data"
proof (cases "rows_of text")
  case Nil
  with assms show ?thesis by (simp add: ingest_def)
next
  case (Cons row0 data)
  show ?thesis
  proof (cases "set requiredColumns \<subseteq> set (js_split comma row0)")
    case True
    from ingest_valid_header [OF Cons True] assms Cons show ?thesis by simp
  next
    case False
    from ingest_invalid_header [OF Cons False] assms show ?thesis by simp
  qed
qed

text \<open>
  Claim C8. When \<open>ingest\<close> returns records, the rows are the pieces of the text between
  line feeds that hold a code unit which \<^verbatim>\<open>trim\<close> does not remove; the records are, in
  order, one for each row after the first, each parsed against the header of the first
  row. A line of commas only is such a row.
\<close>

theorem one_record_per_row:
  assumes "ingest text = Inr products"
    shows "rows_of text = filter (\<lambda>row. \<exists>c \<in> set row. \<not> is_space c) (js_split LF text)
           \<and> Suc (length products) = length (rows_of text)
           \<and> (\<forall>i < length products.
                 products ! i = parse_row (js_split comma (rows_of text ! 0)) (rows_of text ! Suc i))
           \<and> (\<forall>row \<in> set (js_split LF text).
                 row \<noteq> [] \<and> set row \<subseteq> {comma} \<longrightarrow> row \<in> set (rows_of text))"
proof (intro conjI)
  show "rows_of text = filter (\<lambda>row. \<exists>c \<in> set row. \<not> is_space c) (js_split LF text)"
    by (rule rows_of_nonblank)
  from ingest_Inr_rows [OF assms] obtain row0 data where
    rows: "rows_of text = row0 # data" and
    products: "products = map (parse_row (js_split comma row0)) data"
    by blast
  show "Suc (length products) = length (rows_of text)"
    by (simp add: rows products)
  show "\<forall>i < length products.
          products ! i = parse_row (js_split comma (rows_of text ! 0)) (rows_of text ! Suc i)"
    by (simp add: rows products)
  show "\<forall>row \<in> set (js_split LF text).
          row \<noteq> [] \<and> set row \<subseteq> {comma} \<longrightarrow> row \<in> set (rows_of text)"
  proof (intro ballI impI)
    fix row
    assume row: "row \<in> set (js_split LF text)" and commas: "row \<noteq> [] \<and> set row \<subseteq> {comma}"
    from commas obtain c cs where "row = c # cs" by (cases row) simp_all
    with commas have "comma \<in> set row" by simp
    then have "\<exists>c \<in> set row. \<not> is_space c"
      using not_space_comma by blast
    with row show "row \<in> set (rows_of text)"
      by (simp add: rows_of_nonblank)
  qed
qed

theorem one_record_per_row_witness:
  "ingest (lit ''id,name,description,basePrice,stock,image,category\<newline>\<newline>,,,,,,\<newline>   \<newline>2,b,c,4,5,i,k\<newline>'') =
     Inr [parse_row requiredColumns (lit '',,,,,,''), parse_row requiredColumns (lit ''2,b,c,4,5,i,k'')]
   \<and> rows_of (lit ''id,name,description,basePrice,stock,image,category\<newline>\<newline>,,,,,,\<newline>   \<newline>2,b,c,4,5,i,k\<newline>'') =
       [lit ''id,name,description,basePrice,stock,image,category'', lit '',,,,,,'', lit ''2,b,c,4,5,i,k'']"
proof -
  let ?t = "lit ''id,name,description,basePrice,stock,image,category\<newline>\<newline>,,,,,,\<newline>   \<newline>2,b,c,4,5,i,k\<newline>''"
  have rows: "rows_of ?t =
       lit ''id,name,description,basePrice,stock,image,category'' #
       [lit '',,,,,,'', lit ''2,b,c,4,5,i,k'']"
    by (simp add: csv_eval)
  have hs: "js_split comma (lit ''id,name,description,basePrice,stock,image,category'') =
              requiredColumns"
    by (simp add: csv_eval)
  have ok: "ingest ?t =
     Inr [parse_row requiredColumns (lit '',,,,,,''), parse_row requiredColumns (lit ''2,b,c,4,5,i,k'')]"
    using ingest_valid_header [OF rows] by (simp add: hs)
  from one_record_per_row [OF ok]
  have "Suc (length [parse_row requiredColumns (lit '',,,,,,''),
                     parse_row requiredColumns (lit ''2,b,c,4,5,i,k'')]) = length (rows_of ?t)"
    by blast
  with ok rows show ?thesis by simp
qed

subsection \<open>Numbers that do not parse, rows of the wrong length\<close>

lemma unsigned_literal_NaN_iff:
  "unsigned_literal neg u = NaN \<longleftrightarrow>
     \<not> (take 8 u = lit ''Infinity''
        \<or> (u \<noteq> [] \<and> is_digit (hd u))
        \<or> (u \<noteq> [] \<and> hd u = 0x2E \<and> tl u \<noteq> [] \<and> is_digit (hd (tl u))))"
proof (cases "take 8 u = lit ''Infinity''")
  case True
  then show ?thesis by (simp add: unsigned_literal_def)
next
  case inf: False
  show ?thesis
  proof (cases "u \<noteq> [] \<and> is_digit (hd u)")
    case True
    then have "takeWhile is_digit u \<noteq> []"
      by (simp add: takeWhile_eq_Nil_iff)
    with inf True show ?thesis by (simp add: unsigned_literal_def Let_def)
  next
    case False
    then have ip: "takeWhile is_digit u = []" and r1: "dropWhile is_digit u = u"
      by (cases u; simp)+
    show ?thesis
    proof (cases "u \<noteq> [] \<and> hd u = 0x2E")
      case True
      with inf False ip r1 show ?thesis
        by (simp add: unsigned_literal_def Let_def takeWhile_eq_Nil_iff)
    next
      case nodot: False
      with inf False ip r1 show ?thesis
        by (auto simp: unsigned_literal_def Let_def)
    qed
  qed
qed

lemma parseFloat_NaN_iff: "parseFloat s = NaN \<longleftrightarrow> \<not> numeric_prefix s"
proof (cases "trimStart s")
  case Nil
  then show ?thesis by (simp add: parseFloat_def numeric_prefix_def lit_def)
next
  case (Cons c r)
  then show ?thesis
    by (simp add: parseFloat_def numeric_prefix_def Let_def unsigned_literal_NaN_iff)
qed

lemma parseFloat_undefined: "parseFloat_arg None = NaN"
  by (simp add: parseFloat_arg_def parseFloat_NaN_iff numeric_prefix_def Let_def
        trimStart_def is_space_def is_digit_def lit_def)

lemma parse_row_last:
  assumes "i < length hs" and "hs ! i \<notin> set (drop (Suc i) hs)"
      and "hs ! i \<noteq> lit ''__proto__''"
    shows "parse_row hs row (hs ! i) =
             Some (field_value (hs ! i) (value_at (js_split comma row) i))"
  unfolding parse_row_def
  using forEach_header_last [OF assms(1) refl assms(2) assms(3), of 0] by simp

text \<open>
  Claim C7. A \<open>basePrice\<close> or \<open>stock\<close> value that is not numeric text does not make
  \<open>ingest\<close> fail: with a complete header every data row gives a record, and the field
  of that record is the number \<open>NaN\<close>. (When the header names the column more than once,
  the last of these columns is the one that is stored.)
\<close>

theorem non_numeric_gives_NaN:
  assumes "rows_of text = row0 # data"
      and "set requiredColumns \<subseteq> set (js_split comma row0)"
      and "j < length data"
      and "i < length (js_split comma row0)"
      and "js_split comma row0 ! i = lit ''basePrice'' \<or> js_split comma row0 ! i = lit ''stock''"
      and "js_split comma row0 ! i \<notin> set (drop (Suc i) (js_split comma row0))"
      and "i < length (js_split comma (data ! j))"
      and "\<not> numeric_prefix (js_split comma (data ! j) ! i)"
    shows "\<exists>products. ingest text = Inr products \<and> length products = length data
             \<and> (products ! j) (js_split comma row0 ! i) = Some (Num NaN)"
proof -
  let ?hs = "js_split comma row0"
  have proto: "?hs ! i \<noteq> lit ''__proto__''"
    using assms(5) by (auto simp: lit_def)
  have "parse_row ?hs (data ! j) (?hs ! i) =
          Some (field_value (?hs ! i) (value_at (js_split comma (data ! j)) i))"
    using assms(4) assms(6) proto by (rule parse_row_last)
  also have "\<dots> = Some (Num (parseFloat (js_split comma (data ! j) ! i)))"
    using assms(5) assms(7) by (auto simp: field_value_def value_at_def parseFloat_arg_def)
  also have "\<dots> = Some (Num NaN)"
    using assms(8) by (simp add: parseFloat_NaN_iff)
  finally have "parse_row ?hs (data ! j) (?hs ! i) = Some (Num NaN)" .
  with ingest_valid_header [OF assms(1) assms(2)] assms(3) show ?thesis by simp
qed

theorem non_numeric_gives_NaN_witness:
  "\<not> numeric_prefix (lit ''cheap'') \<and> \<not> numeric_prefix (lit ''-'')
   \<and> (\<exists>products.
         ingest (lit ''id,name,description,basePrice,stock,image,category\<newline>7,Desk,Oak,cheap,-,d.png,Home'') =
           Inr products
         \<and> length products = 1
         \<and> (products ! 0) (lit ''basePrice'') = Some (Num NaN))"
proof -
  let ?row = "lit ''7,Desk,Oak,cheap,-,d.png,Home''"
  have rows: "rows_of (lit ''id,name,description,basePrice,stock,image,category\<newline>7,Desk,Oak,cheap,-,d.png,Home'') =
       lit ''id,name,description,basePrice,stock,image,category'' # [?row]"
    by (simp add: csv_eval)
  have hs: "js_split comma (lit ''id,name,description,basePrice,stock,image,category'') =
              requiredColumns"
    by (simp add: csv_eval)
  have vs: "js_split comma ?row =
              [lit ''7'', lit ''Desk'', lit ''Oak'', lit ''cheap'', lit ''-'', lit ''d.png'', lit ''Home'']"
    by (simp add: csv_eval)
  have nn: "\<not> numeric_prefix (lit ''cheap'')" "\<not> numeric_prefix (lit ''-'')"
    by (simp_all add: numeric_prefix_def Let_def trimStart_def is_space_def is_digit_def lit_def)
  have h1: "set requiredColumns \<subseteq>
              set (js_split comma (lit ''id,name,description,basePrice,stock,image,category''))"
    by (simp add: hs)
  have h2: "(0::nat) < length [?row]" by simp
  have h3: "3 < length (js_split comma (lit ''id,name,description,basePrice,stock,image,category''))"
    by (simp add: hs requiredColumns_def)
  have h4: "js_split comma (lit ''id,name,description,basePrice,stock,image,category'') ! 3 = lit ''basePrice''
            \<or> js_split comma (lit ''id,name,description,basePrice,stock,image,category'') ! 3 = lit ''stock''"
    by (simp add: hs requiredColumns_def)
  have h5: "js_split comma (lit ''id,name,description,basePrice,stock,image,category'') ! 3
              \<notin> set (drop (Suc 3) (js_split comma (lit ''id,name,description,basePrice,stock,image,category'')))"
    unfolding hs requiredColumns_def by (simp add: lit_def)
  have h6: "3 < length (js_split comma ([?row] ! 0))"
    by (simp add: vs)
  have h7: "\<not> numeric_prefix (js_split comma ([?row] ! 0) ! 3)"
    using nn by (simp add: vs)
  from non_numeric_gives_NaN [OF rows h1 h2 h3 h4 h5 h6 h7] nn show ?thesis
    by (simp add: hs requiredColumns_def)
qed

text \<open>
  Claim C9. Rows of the wrong length raise no error. With a complete header every data
  row gives a record, whatever its number of values. A header position beyond the end
  of the row stores \<^verbatim>\<open>undefined\<close>, and \<open>NaN\<close> for \<open>basePrice\<close> and \<open>stock\<close> (stated for
  the last column of a name, the one that is stored, and for names other than
  \<^verbatim>\<open>__proto__\<close>). The values beyond the last header position are ignored: the record is
  the one of the row cut to the length of the header.
\<close>

theorem row_length_not_checked:
  assumes "rows_of text = row0 # data"
      and "set requiredColumns \<subseteq> set (js_split comma row0)"
      and "j < length data"
    shows "\<exists>products. ingest text = Inr products \<and> length products = length data
             \<and> products ! j =
                 forEach_header (js_split comma row0) 0
                   (take (length (js_split comma row0)) (js_split comma (data ! j))) new_product
             \<and> (\<forall>i. length (js_split comma (data ! j)) \<le> i \<and> i < length (js_split comma row0)
                     \<and> js_split comma row0 ! i \<notin> set (drop (Suc i) (js_split comma row0))
                     \<and> js_split comma row0 ! i \<noteq> lit ''__proto__'' \<longrightarrow>
                   (products ! j) (js_split comma row0 ! i) =
                     Some (if js_split comma row0 ! i = lit ''basePrice''
                              \<or> js_split comma row0 ! i = lit ''stock''
                           then Num NaN else Undefined))"
proof -
  let ?hs = "js_split comma row0"
  let ?vs = "js_split comma (data ! j)"
  have cut: "parse_row ?hs (data ! j) = forEach_header ?hs 0 (take (length ?hs) ?vs) new_product"
    unfolding parse_row_def by (rule forEach_header_take)
  have beyond: "parse_row ?hs (data ! j) (?hs ! i) =
                  Some (if ?hs ! i = lit ''basePrice'' \<or> ?hs ! i = lit ''stock''
                        then Num NaN else Undefined)"
    if "length ?vs \<le> i \<and> i < length ?hs \<and> ?hs ! i \<notin> set (drop (Suc i) ?hs)
        \<and> ?hs ! i \<noteq> lit ''__proto__''" for i
  proof -
    from that have "parse_row ?hs (data ! j) (?hs ! i) =
                      Some (field_value (?hs ! i) (value_at ?vs i))"
      by (intro parse_row_last) simp_all
    moreover from that have "value_at ?vs i = None"
      by (simp add: value_at_def)
    ultimately show ?thesis
      by (simp add: field_value_def parseFloat_undefined stored_def)
  qed
  from ingest_valid_header [OF assms(1) assms(2)] assms(3) cut beyond show ?thesis
    by simp
qed

theorem row_length_not_checked_witness:
  "\<exists>products.
     ingest (lit ''id,name,description,basePrice,image,category,stock\<newline>7,Desk\<newline>8,Lamp,Brass,30,l.png,Home,2,extra,more'') =
       Inr products
     \<and> length products = 2
     \<and> (products ! 0) (lit ''description'') = Some Undefined
     \<and> (products ! 0) (lit ''stock'') = Some (Num NaN)
     \<and> products ! 1 = parse_row (js_split comma (lit ''id,name,description,basePrice,image,category,stock''))
                         (lit ''8,Lamp,Brass,30,l.png,Home,2'')"
proof -
  let ?h = "lit ''id,name,description,basePrice,image,category,stock''"
  let ?short = "lit ''7,Desk''"
  let ?long = "lit ''8,Lamp,Brass,30,l.png,Home,2,extra,more''"
  have rows: "rows_of (lit ''id,name,description,basePrice,image,category,stock\<newline>7,Desk\<newline>8,Lamp,Brass,30,l.png,Home,2,extra,more'') =
       ?h # [?short, ?long]"
    by (simp add: csv_eval)
  have hs: "js_split comma ?h =
              [lit ''id'', lit ''name'', lit ''description'', lit ''basePrice'', lit ''image'',
               lit ''category'', lit ''stock'']"
    by (simp add: csv_eval)
  have short: "js_split comma ?short = [lit ''7'', lit ''Desk'']"
    by (simp add: csv_eval)
  have long: "js_split comma ?long =
                [lit ''8'', lit ''Lamp'', lit ''Brass'', lit ''30'', lit ''l.png'', lit ''Home'',
                 lit ''2'', lit ''extra'', lit ''more'']"
    by (simp add: csv_eval)
  have cut: "js_split comma (lit ''8,Lamp,Brass,30,l.png,Home,2'') =
               take 7 (js_split comma ?long)"
    by (simp add: csv_eval)
  have valid: "set requiredColumns \<subseteq> set (js_split comma ?h)"
    by (simp add: hs requiredColumns_def)
  from row_length_not_checked [OF rows valid, of 0]
  obtain ps where ps: "ingest (lit ''id,name,description,basePrice,image,category,stock\<newline>7,Desk\<newline>8,Lamp,Brass,30,l.png,Home,2,extra,more'') = Inr ps"
      "length ps = 2"
      and beyond: "\<forall>i. length (js_split comma ?short) \<le> i \<and> i < length (js_split comma ?h)
                     \<and> js_split comma ?h ! i \<notin> set (drop (Suc i) (js_split comma ?h))
                     \<and> js_split comma ?h ! i \<noteq> lit ''__proto__'' \<longrightarrow>
                   (ps ! 0) (js_split comma ?h ! i) =
                     Some (if js_split comma ?h ! i = lit ''basePrice''
                              \<or> js_split comma ?h ! i = lit ''stock''
                           then Num NaN else Undefined)"
    by auto
  have d: "(ps ! 0) (lit ''description'') = Some Undefined"
    using beyond [rule_format, of 2] by (simp add: hs short) (simp add: lit_def)
  have s: "(ps ! 0) (lit ''stock'') = Some (Num NaN)"
    using beyond [rule_format, of 6] by (simp add: hs short) (simp add: lit_def)
  from row_length_not_checked [OF rows valid, of 1] ps(1)
  have "ps ! 1 = forEach_header (js_split comma ?h) 0
                   (take (length (js_split comma ?h)) (js_split comma ?long)) new_product"
    by auto
  moreover have "length (js_split comma ?h) = 7"
    by (simp add: hs)
  ultimately have l: "ps ! 1 = parse_row (js_split comma ?h) (lit ''8,Lamp,Brass,30,l.png,Home,2'')"
    by (simp only: parse_row_def cut)
  from ps d s l show ?thesis by blast
qed

subsection \<open>Line endings\<close>

lemma js_split_line:
  "sep \<notin> set l \<Longrightarrow> js_split sep (l @ sep # rest) = l # js_split sep rest"
  by (induction l) (auto split: list.splits)

lemma js_split_snoc:
  "c \<noteq> sep \<Longrightarrow>
     js_split sep (s @ [c]) = butlast (js_split sep s) @ [last (js_split sep s) @ [c]]"
proof (induction s)
  case Nil
  then show ?case by simp
next
  case (Cons a s)
  show ?case
  proof (cases "a = sep")
    case True
    with Cons js_split_not_Nil [of sep s] show ?thesis by simp
  next
    case False
    obtain piece pieces where split: "js_split sep s = piece # pieces"
      using js_split_not_Nil [of sep s] by (cases "js_split sep s") simp_all
    with Cons False show ?thesis
      by (cases pieces) (auto split: list.splits)
  qed
qed

lemma CR_not_LF: "CR \<noteq> LF"
  by (simp add: CR_def LF_def)

lemma CR_not_comma: "CR \<noteq> comma"
  by (simp add: CR_def comma_def)

lemma is_space_CR: "is_space CR"
  by (simp add: is_space_def CR_def)

lemma js_split_crlf_text:
  assumes "\<forall>l \<in> set ls. LF \<notin> set l"
    shows "js_split LF (crlf_text ls) = map (\<lambda>l. l @ [CR]) ls @ [[]]"
  using assms
proof (induction ls)
  case Nil
  show ?case by (simp add: crlf_text_def)
next
  case (Cons l ls)
  then have "LF \<notin> set (l @ [CR])"
    using CR_not_LF by auto
  from js_split_line [OF this, of "crlf_text ls"]
  have "js_split LF (crlf_text (l # ls)) = (l @ [CR]) # js_split LF (crlf_text ls)"
    by (simp add: crlf_text_def)
  with Cons show ?case by simp
qed

lemma rows_of_crlf_text:
  assumes "\<forall>l \<in> set ls. LF \<notin> set l"
    shows "rows_of (crlf_text ls) = map (\<lambda>l. l @ [CR]) (filter (\<lambda>l. trim l \<noteq> []) ls)"
proof -
  have "filter (\<lambda>row. trim row \<noteq> []) (map (\<lambda>l. l @ [CR]) ls) =
        map (\<lambda>l. l @ [CR]) (filter (\<lambda>l. trim l \<noteq> []) ls)"
    by (induction ls) (auto simp: trim_Nil_iff is_space_CR)
  then show ?thesis
    by (simp add: rows_of_def js_split_crlf_text [OF assms] trim_def)
qed

text \<open>
  Claim C10, as stated, fails: \<open>ingest\<close> looks the required names up anywhere in the
  header, so a CRLF file whose last header column is a required name passes validation
  when the same name is also an earlier column.
\<close>

theorem crlf_duplicate_column_accepted:
  "last (js_split comma (lit ''category,id,name,description,basePrice,stock,image,category'')) =
     lit ''category''
   \<and> ingest (crlf_text [lit ''category,id,name,description,basePrice,stock,image,category'']) =
       Inr []"
proof -
  let ?h = "lit ''category,id,name,description,basePrice,stock,image,category''"
  have hs: "js_split comma ?h =
              [lit ''category'', lit ''id'', lit ''name'', lit ''description'', lit ''basePrice'',
               lit ''stock'', lit ''image'', lit ''category'']"
    by (simp add: csv_eval)
  have rows: "rows_of (crlf_text [?h]) = (?h @ [CR]) # []"
    by (simp add: crlf_text_def csv_eval)
  have "js_split comma (?h @ [CR]) =
          [lit ''category'', lit ''id'', lit ''name'', lit ''description'', lit ''basePrice'',
           lit ''stock'', lit ''image'', lit ''category'' @ [CR]]"
    using js_split_snoc [OF CR_not_comma, of ?h] by (simp add: hs)
  then have "set requiredColumns \<subseteq> set (js_split comma (?h @ [CR]))"
    by (simp add: requiredColumns_def)
  from ingest_valid_header [OF rows this] show ?thesis
    by (simp add: hs)
qed

text \<open>
  Claim C10, amended. The text is split at line feeds only and a carriage return is
  never removed. In a text whose lines all end with CR LF, every row is a line that is
  not blank, with the CR still at its end; splitting such a row at the commas leaves
  all columns but the last as they are and the last one with the CR at its end. So when
  the last header column is a required name that is in no other column of the header,
  \<open>ingest\<close> fails and its message reports that name among the missing columns.
\<close>

theorem crlf_keeps_carriage_return:
  assumes "\<forall>l \<in> set ls. LF \<notin> set l"
    shows "rows_of (crlf_text ls) = map (\<lambda>l. l @ [CR]) (filter (\<lambda>l. trim l \<noteq> []) ls)
           \<and> (\<forall>l. js_split comma (l @ [CR]) =
                    butlast (js_split comma l) @ [last (js_split comma l) @ [CR]])
           \<and> (\<forall>h rest. filter (\<lambda>l. trim l \<noteq> []) ls = h # rest
                  \<and> last (js_split comma h) \<in> set requiredColumns
                  \<and> last (js_split comma h) \<notin> set (butlast (js_split comma h)) \<longrightarrow>
                (\<exists>missing.
                   ingest (crlf_text ls) =
                     Inl (Error (lit ''Missing required columns: '' @
                                 js_join (lit '', '') missing))
                   \<and> last (js_split comma h) \<in> set missing))"
proof (intro conjI allI impI)
  show "rows_of (crlf_text ls) = map (\<lambda>l. l @ [CR]) (filter (\<lambda>l. trim l \<noteq> []) ls)"
    using assms by (rule rows_of_crlf_text)
next
  fix l
  show "js_split comma (l @ [CR]) =
          butlast (js_split comma l) @ [last (js_split comma l) @ [CR]]"
    using CR_not_comma by (rule js_split_snoc)
next
  fix h rest
  assume header: "filter (\<lambda>l. trim l \<noteq> []) ls = h # rest
                  \<and> last (js_split comma h) \<in> set requiredColumns
                  \<and> last (js_split comma h) \<notin> set (butlast (js_split comma h))"
  let ?name = "last (js_split comma h)"
  let ?hs = "js_split comma (h @ [CR])"
  have rows: "rows_of (crlf_text ls) = (h @ [CR]) # map (\<lambda>l. l @ [CR]) rest"
    using header by (simp add: rows_of_crlf_text [OF assms])
  have hs: "?hs = butlast (js_split comma h) @ [?name @ [CR]]"
    using CR_not_comma by (rule js_split_snoc)
  have absent: "?name \<notin> set ?hs"
    using header by (simp add: hs)
  with header have invalid: "\<not> set requiredColumns \<subseteq> set ?hs"
    by blast
  have "?name \<in> set (missingColumns ?hs)"
    using header absent by (simp add: missingColumns_filter)
  with ingest_invalid_header [OF rows invalid]
  show "\<exists>missing.
          ingest (crlf_text ls) =
            Inl (Error (lit ''Missing required columns: '' @ js_join (lit '', '') missing))
          \<and> ?name \<in> set missing"
    by blast
qed

theorem crlf_keeps_carriage_return_witness:
  "crlf_text [lit ''id,name,description,basePrice,stock,image,category'', lit ''7,Desk,Oak,80,3,d.png,Home''] =
     lit ''id,name,description,basePrice,stock,image,category'' @ [CR, LF] @
     lit ''7,Desk,Oak,80,3,d.png,Home'' @ [CR, LF]
   \<and> ingest (crlf_text [lit ''id,name,description,basePrice,stock,image,category'',
                         lit ''7,Desk,Oak,80,3,d.png,Home'']) =
       Inl (Error (lit ''Missing required columns: category''))"
proof -
  let ?h = "lit ''id,name,description,basePrice,stock,image,category''"
  let ?r = "lit ''7,Desk,Oak,80,3,d.png,Home''"
  have lines: "\<forall>l \<in> set [?h, ?r]. LF \<notin> set l"
    by (simp add: lit_def LF_def)
  have kept: "filter (\<lambda>l. trim l \<noteq> []) [?h, ?r] = ?h # [?r]"
    by (simp add: csv_eval)
  have hs: "js_split comma ?h = requiredColumns"
    by (simp add: csv_eval)
  have name: "last (js_split comma ?h) \<in> set requiredColumns
              \<and> last (js_split comma ?h) \<notin> set (butlast (js_split comma ?h))"
    unfolding hs requiredColumns_def by (simp add: lit_def)
  from crlf_keeps_carriage_return [OF lines] kept name
  have rows: "rows_of (crlf_text [?h, ?r]) = [?h @ [CR], ?r @ [CR]]"
    and "\<exists>missing.
           ingest (crlf_text [?h, ?r]) =
             Inl (Error (lit ''Missing required columns: '' @ js_join (lit '', '') missing))"
    by auto
  have "missingColumns (js_split comma (?h @ [CR])) = [lit ''category'']"
    using js_split_snoc [OF CR_not_comma, of ?h] unfolding hs
    by (simp add: missingColumns_filter requiredColumns_def) (simp add: lit_def)
  moreover have "\<not> set requiredColumns \<subseteq> set (js_split comma (?h @ [CR]))"
    using calculation by (simp add: missingColumns_Nil_iff [symmetric])
  moreover have "rows_of (crlf_text [?h, ?r]) = (?h @ [CR]) # [?r @ [CR]]"
    using rows by simp
  ultimately have "ingest (crlf_text [?h, ?r]) =
       Inl (Error (lit ''Missing required columns: category''))"
    using ingest_invalid_header [of "crlf_text [?h, ?r]" "?h @ [CR]" "[?r @ [CR]]"]
    by (simp add: lit_def)
  then show ?thesis by (simp add: crlf_text_def)
qed

end
